theory Spec2Isabelle
  imports Main "HOL-Library.Word" "HOL-Library.DAList"
begin

section \<open>The expiring in-memory cache of \<^verbatim>\<open>utils/cache/cache.go\<close>\<close>

text \<open>
  The embedding follows \<^verbatim>\<open>cache.go\<close> function by function and keeps its names.

  \<^item> \<^verbatim>\<open>int64\<close> and \<^verbatim>\<open>time.Duration\<close> are 64-bit words read as two's complement:
    \<open>+\<close> wraps, \<open><s\<close> is the signed comparison of Go.
  \<^item> \<^verbatim>\<open>interface{}\<close> is \<open>'v option\<close>, with \<open>None\<close> for \<^verbatim>\<open>nil\<close>.
  \<^item> The Go map \<^verbatim>\<open>map[string]Item\<close> is an association list with unique keys; the order
    of the list stands for the order in which \<^verbatim>\<open>range\<close> visits the map. The map is an
    allocated one, as \<^verbatim>\<open>New\<close> builds it.
  \<^item> Every reading of the clock, \<^verbatim>\<open>time.Now().UnixNano()\<close>, is an argument of the
    operation that reads it.
  \<^item> The mutex and the eviction callback are visible through the field \<open>trace\<close>: the
    history, oldest first, of the lock operations and of the callback invocations that
    the operations on the cache have performed. The callback itself is opaque: a value
    of type \<open>'f\<close> names it, and an invocation is recorded with its arguments.
  \<^item> Calling a \<^verbatim>\<open>nil\<close> function panics in Go; the operations that call the callback
    return an \<open>option\<close>, with \<open>None\<close> for the panic.
\<close>

type_synonym int64 = "64 word"

subsection \<open>Data\<close>

record 'v Item =
  Object :: "'v option"
  Expiration :: int64

definition NoExpiration :: int64 where
  "NoExpiration = - 1"

definition DefaultExpiration :: int64 where
  "DefaultExpiration = 0"

text \<open>\<^verbatim>\<open>time.Time{}\<close> and \<^verbatim>\<open>time.Unix(sec, nsec)\<close>, the two times the code builds.\<close>

datatype Time = ZeroTime | Unix int64 int64

datatype error = KeyExists string | KeyNotFound string

text \<open>The text of the errors, as \<^verbatim>\<open>fmt.Errorf\<close> formats them.\<close>

fun Error :: "error \<Rightarrow> string" where
  "Error (KeyExists k) = ''Item '' @ k @ '' already exists''"
| "Error (KeyNotFound k) = ''Item '' @ k @ '' doesn't exist''"

datatype ('v, 'f) event =
  Lock | Unlock | RLock | RUnlock | Evicted 'f string "'v option"

record janitor =
  Interval :: int64

record ('v, 'f) cache =
  defaultExpiration :: int64
  items :: "(string, 'v Item) alist"
  onEvicted :: "'f option"
  janitor :: "janitor option"
  trace :: "('v, 'f) event list"

record 'v keyAndValue =
  key :: string
  "value" :: "'v option"

subsection \<open>The mutex and the callback\<close>

definition emit :: "('v, 'f) event \<Rightarrow> ('v, 'f) cache \<Rightarrow> ('v, 'f) cache" where
  "emit ev c = c\<lparr>trace := trace c @ [ev]\<rparr>"

text \<open>\<^verbatim>\<open>c.onEvicted(k, v)\<close>: a panic when the field is \<^verbatim>\<open>nil\<close>.\<close>

definition call_onEvicted ::
  "('v, 'f) cache \<Rightarrow> string \<Rightarrow> 'v option \<Rightarrow> ('v, 'f) cache option" where
  "call_onEvicted c k v =
     (case onEvicted c of
        None \<Rightarrow> None
      | Some f \<Rightarrow> Some (emit (Evicted f k v) c))"

subsection \<open>Expiry of an item\<close>

definition Expired :: "'v Item \<Rightarrow> int64 \<Rightarrow> bool" where
  "Expired item now =
     (if Expiration item = 0 then False else Expiration item <s now)"

subsection \<open>Construction\<close>

definition newCache :: "int64 \<Rightarrow> (string, 'v Item) alist \<Rightarrow> ('v, 'f) cache" where
  "newCache de m =
     (let de = (if de = 0 then - 1 else de)
      in \<lparr>defaultExpiration = de, items = m, onEvicted = None, janitor = None,
          trace = []\<rparr>)"

text \<open>
  \<^verbatim>\<open>runJanitor\<close> stores the janitor and starts its goroutine, which calls
  \<^verbatim>\<open>DeleteExpired\<close> at every tick; the goroutine, its stop channel and the finalizer
  that stops it are not part of the sequential model, where the sweeps of the janitor
  are calls of \<open>DeleteExpired\<close> like any other.
\<close>

definition runJanitor :: "('v, 'f) cache \<Rightarrow> int64 \<Rightarrow> ('v, 'f) cache" where
  "runJanitor c ci = c\<lparr>janitor := Some \<lparr>Interval = ci\<rparr>\<rparr>"

definition newCacheWithJanitor ::
  "int64 \<Rightarrow> int64 \<Rightarrow> (string, 'v Item) alist \<Rightarrow> ('v, 'f) cache" where
  "newCacheWithJanitor de ci m =
     (let c = newCache de m
      in if 0 <s ci then runJanitor c ci else c)"

definition New :: "int64 \<Rightarrow> int64 \<Rightarrow> ('v, 'f) cache" where
  "New defaultExpiration' cleanupInterval =
     newCacheWithJanitor defaultExpiration' cleanupInterval DAList.empty"

definition NewFrom ::
  "int64 \<Rightarrow> int64 \<Rightarrow> (string, 'v Item) alist \<Rightarrow> ('v, 'f) cache" where
  "NewFrom defaultExpiration' cleanupInterval items' =
     newCacheWithJanitor defaultExpiration' cleanupInterval items'"

subsection \<open>Writing\<close>

text \<open>
  \<^verbatim>\<open>Set\<close> reads the clock before it takes the lock. \<^verbatim>\<open>time.Now().Add(d).UnixNano()\<close> is
  the sum of the clock and the duration in \<^verbatim>\<open>int64\<close>, which wraps.
\<close>

definition Set ::
  "('v, 'f) cache \<Rightarrow> string \<Rightarrow> 'v option \<Rightarrow> int64 \<Rightarrow> int64 \<Rightarrow> ('v, 'f) cache" where
  "Set c k x d now =
     (let d = (if d = DefaultExpiration then defaultExpiration c else d);
          e = (if 0 <s d then now + d else 0);
          c = emit Lock c;
          c = c\<lparr>items := DAList.update k \<lparr>Object = x, Expiration = e\<rparr> (items c)\<rparr>
      in emit Unlock c)"

text \<open>The unexported \<^verbatim>\<open>set\<close>, which takes no lock: its deadline is the clock alone.\<close>

definition set_lc ::
  "('v, 'f) cache \<Rightarrow> string \<Rightarrow> 'v option \<Rightarrow> int64 \<Rightarrow> int64 \<Rightarrow> ('v, 'f) cache" where
  "set_lc c k x d now =
     (let d = (if d = DefaultExpiration then defaultExpiration c else d);
          e = (if 0 <s d then now else 0)
      in c\<lparr>items := DAList.update k \<lparr>Object = x, Expiration = e\<rparr> (items c)\<rparr>)"

definition SetDefault ::
  "('v, 'f) cache \<Rightarrow> string \<Rightarrow> 'v option \<Rightarrow> int64 \<Rightarrow> ('v, 'f) cache" where
  "SetDefault c k x now = Set c k x DefaultExpiration now"

subsection \<open>Reading\<close>

definition get :: "('v, 'f) cache \<Rightarrow> string \<Rightarrow> int64 \<Rightarrow> 'v option \<times> bool" where
  "get c k now =
     (case DAList.lookup (items c) k of
        None \<Rightarrow> (None, False)
      | Some item \<Rightarrow>
          if 0 <s Expiration item then
            if Expiration item <s now then (None, False) else (Object item, True)
          else (Object item, True))"

definition Get ::
  "('v, 'f) cache \<Rightarrow> string \<Rightarrow> int64 \<Rightarrow> ('v option \<times> bool) \<times> ('v, 'f) cache" where
  "Get c k now =
     (let c = emit Lock c
      in case DAList.lookup (items c) k of
           None \<Rightarrow> ((None, False), emit Unlock c)
         | Some item \<Rightarrow>
             if 0 <s Expiration item then
               if Expiration item <s now
               then ((None, False), emit Unlock c)
               else ((Object item, True), emit Unlock c)
             else ((Object item, True), emit Unlock c))"

definition GetWithExpiration ::
  "('v, 'f) cache \<Rightarrow> string \<Rightarrow> int64 \<Rightarrow>
     ('v option \<times> Time \<times> bool) \<times> ('v, 'f) cache" where
  "GetWithExpiration c k now =
     (let c = emit Lock c
      in case DAList.lookup (items c) k of
           None \<Rightarrow> ((None, ZeroTime, False), emit Unlock c)
         | Some item \<Rightarrow>
             if 0 <s Expiration item then
               if Expiration item <s now
               then ((None, ZeroTime, False), emit Unlock c)
               else ((Object item, Unix 0 (Expiration item), True), emit Unlock c)
             else ((Object item, ZeroTime, True), emit Unlock c))"

subsection \<open>Conditional writing\<close>

text \<open>
  \<^verbatim>\<open>Add\<close> and \<^verbatim>\<open>Replace\<close> read the clock in \<^verbatim>\<open>get\<close> (\<open>tg\<close>) and again in
  \<^verbatim>\<open>set\<close> (\<open>ts\<close>). The result \<open>None\<close> is the \<^verbatim>\<open>nil\<close> error.
\<close>

definition Add ::
  "('v, 'f) cache \<Rightarrow> string \<Rightarrow> 'v option \<Rightarrow> int64 \<Rightarrow> int64 \<Rightarrow> int64 \<Rightarrow>
     error option \<times> ('v, 'f) cache" where
  "Add c k x d tg ts =
     (let c = emit Lock c;
          (_, found) = get c k tg
      in if found then (Some (KeyExists k), emit Unlock c)
         else (None, emit Unlock (set_lc c k x d ts)))"

definition Replace ::
  "('v, 'f) cache \<Rightarrow> string \<Rightarrow> 'v option \<Rightarrow> int64 \<Rightarrow> int64 \<Rightarrow> int64 \<Rightarrow>
     error option \<times> ('v, 'f) cache" where
  "Replace c k x d tg ts =
     (let c = emit Lock c;
          (_, found) = get c k tg
      in if \<not> found then (Some (KeyNotFound k), emit Unlock c)
         else (None, emit Unlock (set_lc c k x d ts)))"

subsection \<open>Deleting\<close>

definition delete ::
  "('v, 'f) cache \<Rightarrow> string \<Rightarrow> ('v option \<times> bool) \<times> ('v, 'f) cache" where
  "delete c k =
     (case (onEvicted c, DAList.lookup (items c) k) of
        (Some f, Some v) \<Rightarrow>
          ((Object v, True), c\<lparr>items := DAList.delete k (items c)\<rparr>)
      | _ \<Rightarrow> ((None, False), c\<lparr>items := DAList.delete k (items c)\<rparr>))"

text \<open>
  In \<^verbatim>\<open>Delete\<close> the unlock is deferred: it runs when the function returns, after the
  callback.
\<close>

definition Delete :: "('v, 'f) cache \<Rightarrow> string \<Rightarrow> ('v, 'f) cache option" where
  "Delete c k =
     (let c = emit Lock c;
          ((v, evicted), c) = delete c k
      in if evicted then map_option (emit Unlock) (call_onEvicted c k v)
         else Some (emit Unlock c))"

text \<open>
  The first loop of \<^verbatim>\<open>DeleteExpired\<close> ranges over the map and deletes the key it is
  at, so it visits every entry that the map had at the start once.
\<close>

fun DeleteExpired_scan ::
  "int64 \<Rightarrow> (string \<times> 'v Item) list \<Rightarrow> ('v, 'f) cache \<Rightarrow> 'v keyAndValue list \<Rightarrow>
     ('v, 'f) cache \<times> 'v keyAndValue list" where
  "DeleteExpired_scan now [] c evictedItems = (c, evictedItems)"
| "DeleteExpired_scan now ((k, v) # rest) c evictedItems =
     (if 0 <s Expiration v \<and> Expiration v <s now then
        (case delete c k of
           ((ov, evicted), c') \<Rightarrow>
             DeleteExpired_scan now rest c'
               (if evicted then evictedItems @ [\<lparr>key = k, value = ov\<rparr>]
                else evictedItems))
      else DeleteExpired_scan now rest c evictedItems)"

fun DeleteExpired_notify ::
  "'v keyAndValue list \<Rightarrow> ('v, 'f) cache \<Rightarrow> ('v, 'f) cache option" where
  "DeleteExpired_notify [] c = Some c"
| "DeleteExpired_notify (v # rest) c =
     (case call_onEvicted c (key v) (value v) of
        None \<Rightarrow> None
      | Some c' \<Rightarrow> DeleteExpired_notify rest c')"

definition DeleteExpired :: "('v, 'f) cache \<Rightarrow> int64 \<Rightarrow> ('v, 'f) cache option" where
  "DeleteExpired c now =
     (let c = emit Lock c;
          (c, evictedItems) = DeleteExpired_scan now (DAList.impl_of (items c)) c [];
          c = emit Unlock c
      in DeleteExpired_notify evictedItems c)"

definition OnEvicted :: "('v, 'f) cache \<Rightarrow> 'f option \<Rightarrow> ('v, 'f) cache" where
  "OnEvicted c f = emit Unlock ((emit Lock c)\<lparr>onEvicted := f\<rparr>)"

definition Flush :: "('v, 'f) cache \<Rightarrow> ('v, 'f) cache" where
  "Flush c = emit Unlock ((emit Lock c)\<lparr>items := DAList.empty\<rparr>)"

subsection \<open>Counting and enumerating\<close>

definition ItemCount :: "('v, 'f) cache \<Rightarrow> nat \<times> ('v, 'f) cache" where
  "ItemCount c =
     (let c = emit RLock c;
          n = length (DAList.impl_of (items c))
      in (n, emit RUnlock c))"

fun Items_copy ::
  "int64 \<Rightarrow> (string \<times> 'v Item) list \<Rightarrow> (string, 'v Item) alist \<Rightarrow>
     (string, 'v Item) alist" where
  "Items_copy now [] m = m"
| "Items_copy now ((k, v) # rest) m =
     (if 0 <s Expiration v then
        if Expiration v <s now then Items_copy now rest m
        else Items_copy now rest (DAList.update k v m)
      else Items_copy now rest (DAList.update k v m))"

definition Items ::
  "('v, 'f) cache \<Rightarrow> int64 \<Rightarrow> (string, 'v Item) alist \<times> ('v, 'f) cache" where
  "Items c now =
     (let c = emit RLock c;
          m = Items_copy now (DAList.impl_of (items c)) DAList.empty
      in (m, emit RUnlock c))"

fun Objects_copy ::
  "int64 \<Rightarrow> (string \<times> 'v Item) list \<Rightarrow> (string, 'v option) alist \<Rightarrow>
     (string, 'v option) alist" where
  "Objects_copy now [] m = m"
| "Objects_copy now ((k, v) # rest) m =
     (if 0 <s Expiration v then
        if Expiration v <s now then Objects_copy now rest m
        else Objects_copy now rest (DAList.update k (Object v) m)
      else Objects_copy now rest (DAList.update k (Object v) m))"

definition Objects ::
  "('v, 'f) cache \<Rightarrow> int64 \<Rightarrow> (string, 'v option) alist \<times> ('v, 'f) cache" where
  "Objects c now =
     (let c = emit RLock c;
          m = Objects_copy now (DAList.impl_of (items c)) DAList.empty
      in (m, emit RUnlock c))"

subsection \<open>Reading the trace\<close>

text \<open>The callback invocations of a trace, in order: callback, key and value.\<close>

fun evictions :: "('v, 'f) event list \<Rightarrow> ('f \<times> string \<times> 'v option) list" where
  "evictions [] = []"
| "evictions (Evicted f k v # es) = (f, k, v) # evictions es"
| "evictions (Lock # es) = evictions es"
| "evictions (Unlock # es) = evictions es"
| "evictions (RLock # es) = evictions es"
| "evictions (RUnlock # es) = evictions es"

text \<open>
  The number of holds of the mutex goes up with every lock and down with every unlock.
  A trace is unguarded when each of its callback invocations happens with no hold.
\<close>

fun unguarded :: "nat \<Rightarrow> ('v, 'f) event list \<Rightarrow> bool" where
  "unguarded held [] = True"
| "unguarded held (Lock # es) = unguarded (Suc held) es"
| "unguarded held (RLock # es) = unguarded (Suc held) es"
| "unguarded held (Unlock # es) = unguarded (held - 1) es"
| "unguarded held (RUnlock # es) = unguarded (held - 1) es"
| "unguarded held (Evicted f k v # es) = (held = 0 \<and> unguarded held es)"

subsection \<open>The deadline test\<close>

text \<open>
  The test of \<^verbatim>\<open>DeleteExpired\<close>, \<^verbatim>\<open>v.Expiration > 0 && now > v.Expiration\<close>, which
  \<^verbatim>\<open>get\<close>, \<^verbatim>\<open>Get\<close>, \<^verbatim>\<open>GetWithExpiration\<close>, \<^verbatim>\<open>Items\<close> and \<^verbatim>\<open>Objects\<close> make as two
  nested tests.
\<close>

definition deadline_passed :: "int64 \<Rightarrow> 'v Item \<Rightarrow> bool" where
  "deadline_passed now v = (0 <s Expiration v \<and> Expiration v <s now)"

subsection \<open>Clients\<close>

text \<open>
  A client of the cache is a sequence of calls of the exported operations, each with the
  clock readings it makes. The results of the calls are dropped; a panic ends the run.
\<close>

datatype ('v, 'f) call =
    CallSet string "'v option" int64 int64
  | CallSetDefault string "'v option" int64
  | CallAdd string "'v option" int64 int64 int64
  | CallReplace string "'v option" int64 int64 int64
  | CallGet string int64
  | CallGetWithExpiration string int64
  | CallDelete string
  | CallDeleteExpired int64
  | CallOnEvicted "'f option"
  | CallFlush
  | CallItemCount
  | CallItems int64
  | CallObjects int64

fun perform :: "('v, 'f) cache \<Rightarrow> ('v, 'f) call \<Rightarrow> ('v, 'f) cache option" where
  "perform c (CallSet k x d now) = Some (Set c k x d now)"
| "perform c (CallSetDefault k x now) = Some (SetDefault c k x now)"
| "perform c (CallAdd k x d tg ts) = Some (snd (Add c k x d tg ts))"
| "perform c (CallReplace k x d tg ts) = Some (snd (Replace c k x d tg ts))"
| "perform c (CallGet k now) = Some (snd (Get c k now))"
| "perform c (CallGetWithExpiration k now) = Some (snd (GetWithExpiration c k now))"
| "perform c (CallDelete k) = Delete c k"
| "perform c (CallDeleteExpired now) = DeleteExpired c now"
| "perform c (CallOnEvicted f) = Some (OnEvicted c f)"
| "perform c CallFlush = Some (Flush c)"
| "perform c CallItemCount = Some (snd (ItemCount c))"
| "perform c (CallItems now) = Some (snd (Items c now))"
| "perform c (CallObjects now) = Some (snd (Objects c now))"

fun run :: "('v, 'f) cache \<Rightarrow> ('v, 'f) call list \<Rightarrow> ('v, 'f) cache option" where
  "run c [] = Some c"
| "run c (a # as) = (case perform c a of None \<Rightarrow> None | Some c' \<Rightarrow> run c' as)"

subsection \<open>An example store\<close>

text \<open>
  A store with a callback registered and two entries written at clock reading 5: one with
  a time to live of 10, one that never expires.
\<close>

definition example_cache :: "(nat, nat) cache" where
  "example_cache =
     OnEvicted (Set (Set (New 0 0) ''k'' (Some 7) 10 5) ''n'' (Some 8) NoExpiration 5) (Some 1)"

section \<open>Properties\<close>

subsection \<open>Auxiliary facts\<close>

lemma evictions_append: "evictions (xs @ ys) = evictions xs @ evictions ys"
  by (induction xs rule: evictions.induct) simp_all

lemma DAList_delete_absent:
  "DAList.lookup al k = None \<Longrightarrow> DAList.delete k al = al"
  by (rule alist_ext) (simp add: DAList.delete.rep_eq DAList.lookup.rep_eq map_of_eq_None_iff)

lemma delete_items:
  "snd (delete c k) = c\<lparr>items := DAList.delete k (items c)\<rparr>"
  by (simp add: delete_def split: option.splits)

lemma delete_result:
  "DAList.lookup (items c) k = Some v \<Longrightarrow>
   fst (delete c k) = (if onEvicted c = None then (None, False) else (Object v, True))"
  by (simp add: delete_def split: option.splits)

lemma DAList_filter_delete:
  "DAList.filter (\<lambda>(k', v). k' \<notin> S) (DAList.delete k m)
     = DAList.filter (\<lambda>(k', v). k' \<notin> insert k S) m"
  by (rule alist_ext)
     (auto simp add: DAList.filter.rep_eq DAList.delete.rep_eq AList.delete_eq
           intro: filter_cong)

lemma DAList_filter_all: "DAList.filter (\<lambda>a. True) m = m"
  by (rule alist_ext) (simp add: DAList.filter.rep_eq)

lemma DeleteExpired_scan_Cons:
  "DeleteExpired_scan now ((k, v) # rest) c ev =
     (if deadline_passed now v then
        DeleteExpired_scan now rest (snd (delete c k))
          (if snd (fst (delete c k)) then ev @ [\<lparr>key = k, value = fst (fst (delete c k))\<rparr>]
           else ev)
      else DeleteExpired_scan now rest c ev)"
  by (simp add: deadline_passed_def split: prod.splits)

lemma DeleteExpired_scan_result:
  "distinct (map fst xs) \<Longrightarrow>
   (\<forall>(k, v) \<in> set xs. DAList.lookup (items c) k = Some v) \<Longrightarrow>
   DeleteExpired_scan now xs c ev =
     (c\<lparr>items := DAList.filter
          (\<lambda>(k, v). k \<notin> fst ` set (filter (\<lambda>(k, v). deadline_passed now v) xs)) (items c)\<rparr>,
      if onEvicted c = None then ev
      else ev @ map (\<lambda>(k, v). \<lparr>key = k, value = Object v\<rparr>)
                  (filter (\<lambda>(k, v). deadline_passed now v) xs))"
proof (induction xs arbitrary: c ev)
  case Nil
  show ?case by (simp add: DAList_filter_all)
next
  case (Cons p xs)
  obtain k v where p: "p = (k, v)" by (cases p)
  from Cons.prems have dist: "distinct (map fst xs)" and knot: "k \<notin> fst ` set xs"
    and kv: "DAList.lookup (items c) k = Some v"
    and rest: "\<forall>(k', v') \<in> set xs. DAList.lookup (items c) k' = Some v'"
    by (auto simp add: p)
  show ?case
  proof (cases "deadline_passed now v")
    case False
    then show ?thesis
      using Cons.IH [OF dist rest, of ev]
      by (simp add: p DeleteExpired_scan_Cons del: DeleteExpired_scan.simps)
  next
    case True
    let ?c = "c\<lparr>items := DAList.delete k (items c)\<rparr>"
    have rest': "\<forall>(k', v') \<in> set xs. DAList.lookup (items ?c) k' = Some v'"
      using rest knot by (auto simp add: rev_image_eqI)
    have d: "delete c k =
        ((if onEvicted c = None then (None, False) else (Object v, True)), ?c)"
      using delete_items [of c k] delete_result [OF kv] by (simp add: prod_eq_iff)
    show ?thesis
      using True Cons.IH [OF dist rest'] 
      by (cases "onEvicted c")
         (simp_all add: p d DeleteExpired_scan_Cons DAList_filter_delete
            del: DeleteExpired_scan.simps)
  qed
qed

lemma DeleteExpired_notify_result:
  "onEvicted c = Some f \<Longrightarrow>
   DeleteExpired_notify evs c
     = Some (c\<lparr>trace := trace c @ map (\<lambda>e. Evicted f (key e) (value e)) evs\<rparr>)"
  by (induction evs arbitrary: c) (simp_all add: call_onEvicted_def emit_def)

lemma DAList_lookup_impl_of:
  "(k, v) \<in> set (DAList.impl_of m) \<Longrightarrow> DAList.lookup m k = Some v"
  by (simp add: DAList.lookup.rep_eq)

lemma DAList_filter_expired_keys:
  "DAList.filter
     (\<lambda>(k, v). k \<notin> fst ` set (filter (\<lambda>(k, v). P v) (DAList.impl_of m))) m
     = DAList.filter (\<lambda>(k, v). \<not> P v) m"
proof (rule alist_ext)
  let ?dead = "filter (\<lambda>(k, v). P v) (DAList.impl_of m)"
  have key: "(k \<in> fst ` set ?dead) = P v"
    if "(k, v) \<in> set (DAList.impl_of m)" for k v
  proof
    assume "k \<in> fst ` set ?dead"
    then obtain v' where v': "(k, v') \<in> set (DAList.impl_of m)" "P v'"
      by auto
    from v'(1) that have "v' = v"
      using impl_of_distinct [of m] by (meson eq_key_imp_eq_value)
    with v'(2) show "P v" by simp
  next
    assume "P v"
    with that have "(k, v) \<in> set ?dead" by simp
    then show "k \<in> fst ` set ?dead" by (rule rev_image_eqI) simp
  qed
  have "filter (\<lambda>(k, v). k \<notin> fst ` set ?dead) (DAList.impl_of m)
      = filter (\<lambda>(k, v). \<not> P v) (DAList.impl_of m)"
  proof (rule filter_cong [OF refl])
    fix p
    assume mem: "p \<in> set (DAList.impl_of m)"
    obtain k v where p: "p = (k, v)"
      by (cases p)
    from mem have "(k, v) \<in> set (DAList.impl_of m)"
      by (simp only: p)
    then have "(k \<in> fst ` set ?dead) = P v"
      by (rule key)
    then show "(case p of (k, v) \<Rightarrow> k \<notin> fst ` set ?dead)
        = (case p of (k, v) \<Rightarrow> \<not> P v)"
      unfolding p by (simp only: prod.case)
  qed
  then show "DAList.impl_of (DAList.filter (\<lambda>(k, v). k \<notin> fst ` set ?dead) m)
    = DAList.impl_of (DAList.filter (\<lambda>(k, v). \<not> P v) m)"
    by (simp only: DAList.filter.rep_eq)
qed

lemma DeleteExpired_result:
  "DeleteExpired c now =
     Some (c\<lparr>items := DAList.filter (\<lambda>(k, v). \<not> deadline_passed now v) (items c),
             trace := trace c @ [Lock, Unlock] @
               (case onEvicted c of
                  None \<Rightarrow> []
                | Some f \<Rightarrow>
                    map (\<lambda>(k, v). Evicted f k (Object v))
                      (filter (\<lambda>(k, v). deadline_passed now v)
                         (DAList.impl_of (items c))))\<rparr>)"
proof -
  let ?c = "emit Lock c"
  let ?xs = "DAList.impl_of (items c)"
  let ?dead = "filter (\<lambda>(k, v). deadline_passed now v) ?xs"
  have "DeleteExpired_scan now ?xs ?c [] =
     (?c\<lparr>items := DAList.filter (\<lambda>(k, v). k \<notin> fst ` set ?dead) (items ?c)\<rparr>,
      if onEvicted ?c = None then []
      else [] @ map (\<lambda>(k, v). \<lparr>key = k, value = Object v\<rparr>) ?dead)"
    by (rule DeleteExpired_scan_result) (auto simp add: emit_def DAList_lookup_impl_of)
  moreover have "items ?c = items c" and "onEvicted ?c = onEvicted c"
    by (simp_all add: emit_def)
  ultimately have scan: "DeleteExpired_scan now ?xs ?c [] =
     (?c\<lparr>items := DAList.filter (\<lambda>(k, v). \<not> deadline_passed now v) (items c)\<rparr>,
      if onEvicted c = None then []
      else map (\<lambda>(k, v). \<lparr>key = k, value = Object v\<rparr>) ?dead)"
    by (simp only: DAList_filter_expired_keys append_Nil)
  have unfold: "DeleteExpired c now =
     DeleteExpired_notify (snd (DeleteExpired_scan now ?xs ?c []))
       (emit Unlock (fst (DeleteExpired_scan now ?xs ?c [])))"
    by (simp add: DeleteExpired_def Let_def split_beta emit_def)
  show ?thesis
  proof (cases "onEvicted c")
    case None
    then show ?thesis
      unfolding unfold scan by (simp add: emit_def)
  next
    case (Some f)
    then show ?thesis
      unfolding unfold scan
      by (simp add: emit_def DeleteExpired_notify_result [where f = f] comp_def split_beta)
  qed
qed

lemma Items_copy_lookup:
  "distinct (map fst xs) \<Longrightarrow>
   DAList.lookup (Items_copy now xs m) k =
     (case map_of xs k of
        None \<Rightarrow> DAList.lookup m k
      | Some v \<Rightarrow> if deadline_passed now v then DAList.lookup m k else Some v)"
proof (induction xs arbitrary: m)
  case Nil
  show ?case by simp
next
  case (Cons p xs)
  obtain k' v' where p: "p = (k', v')" by (cases p)
  from Cons.prems have dist: "distinct (map fst xs)" and knot: "map_of xs k' = None"
    by (auto simp add: p map_of_eq_None_iff)
  show ?case
    using Cons.IH [OF dist] knot
    by (auto simp add: p deadline_passed_def DAList.lookup_update split: option.splits)
qed

lemma map_of_filter_absent:
  assumes "map_of xs k = None"
  shows "map_of (filter P xs) k = None"
  using assms by (induction xs) (auto split: if_splits)

lemma map_of_filter_present:
  assumes "map_of xs k = Some v" and "distinct (map fst xs)"
  shows "map_of (filter P xs) k = (if P (k, v) then Some v else None)"
  using assms
proof (induction xs)
  case Nil
  then show ?case by simp
next
  case (Cons p xs)
  obtain k' v' where p: "p = (k', v')" by (cases p)
  show ?case
  proof (cases "k' = k")
    case True
    with Cons.prems have "v' = v" and "map_of xs k = None"
      by (auto simp add: p map_of_eq_None_iff)
    then show ?thesis
      using True by (simp add: p map_of_filter_absent)
  next
    case False
    with Cons show ?thesis by (simp add: p)
  qed
qed

lemma DAList_lookup_filter:
  "DAList.lookup (DAList.filter P m) k =
     (case DAList.lookup m k of
        None \<Rightarrow> None
      | Some v \<Rightarrow> if P (k, v) then Some v else None)"
proof (cases "DAList.lookup m k")
  case None
  then show ?thesis
    by (simp add: DAList.lookup.rep_eq DAList.filter.rep_eq map_of_filter_absent)
next
  case (Some v)
  then show ?thesis
    by (simp add: DAList.lookup.rep_eq DAList.filter.rep_eq map_of_filter_present)
qed

lemma Get_result:
  "fst (Get c k now) =
     (case DAList.lookup (items c) k of
        None \<Rightarrow> (None, False)
      | Some v \<Rightarrow> if deadline_passed now v then (None, False) else (Object v, True))"
  by (simp add: Get_def Let_def emit_def deadline_passed_def split: option.splits)

lemma GetWithExpiration_result:
  "fst (GetWithExpiration c k now) =
     (case DAList.lookup (items c) k of
        None \<Rightarrow> (None, ZeroTime, False)
      | Some v \<Rightarrow>
          if deadline_passed now v then (None, ZeroTime, False)
          else if 0 <s Expiration v then (Object v, Unix 0 (Expiration v), True)
          else (Object v, ZeroTime, True))"
  by (simp add: GetWithExpiration_def Let_def emit_def deadline_passed_def split: option.splits)

lemma evictions_map_Evicted:
  "evictions (map (\<lambda>(k, v). Evicted f k (Object v)) ys)
     = map (\<lambda>(k, v). (f, k, Object v)) ys"
  by (induction ys) auto

lemma length_filter_kept_dead:
  "length (filter (\<lambda>(k, v). \<not> P v) xs) + length (filter (\<lambda>(k, v). P v) xs)
     = length xs"
  by (induction xs) auto

lemma example_cache_eq:
  "example_cache =
     \<lparr>defaultExpiration = - 1,
      items = DAList.update ''n'' \<lparr>Object = Some 8, Expiration = 0\<rparr>
                (DAList.update ''k'' \<lparr>Object = Some 7, Expiration = 15\<rparr> DAList.empty),
      onEvicted = Some 1, janitor = None,
      trace = [Lock, Unlock, Lock, Unlock, Lock, Unlock]\<rparr>"
  by (simp add: example_cache_def New_def newCacheWithJanitor_def newCache_def Set_def
        OnEvicted_def emit_def DefaultExpiration_def NoExpiration_def word_sless_alt)

lemma example_cache_items:
  "DAList.impl_of (items example_cache) =
     [(''k'', \<lparr>Object = Some 7, Expiration = 15\<rparr>),
      (''n'', \<lparr>Object = Some 8, Expiration = 0\<rparr>)]"
  by (simp add: example_cache_eq DAList.update.rep_eq DAList.empty.rep_eq)

lemma negative_duration:
  fixes d :: int64
  assumes "d <s 0"
  shows "d \<noteq> 0" and "\<not> 0 <s d"
  using assms by (auto simp add: word_sless_alt)

lemma Set_items:
  "items (Set c k x d now) =
     DAList.update k
       \<lparr>Object = x,
        Expiration =
          (let d = (if d = DefaultExpiration then defaultExpiration c else d)
           in if 0 <s d then now + d else 0)\<rparr> (items c)"
  by (simp add: Set_def Let_def emit_def)

lemma DeleteExpired_lookup:
  "\<exists>c'. DeleteExpired c now = Some c' \<and>
     defaultExpiration c' = defaultExpiration c \<and>
     DAList.lookup (items c') k =
       (case DAList.lookup (items c) k of
          None \<Rightarrow> None
        | Some v \<Rightarrow> if deadline_passed now v then None else Some v)"
  by (simp add: DeleteExpired_result DAList_lookup_filter split: option.splits)

lemma Items_lookup:
  "DAList.lookup (fst (Items c now)) k =
     (case DAList.lookup (items c) k of
        None \<Rightarrow> None
      | Some v \<Rightarrow> if deadline_passed now v then None else Some v)"
proof -
  have "map_of (DAList.impl_of (items c)) k = DAList.lookup (items c) k"
    by (simp add: DAList.lookup.rep_eq)
  with Items_copy_lookup [of "DAList.impl_of (items c)" now DAList.empty k]
  show ?thesis
    by (simp add: Items_def Let_def emit_def split: option.splits)
qed

lemma sint_add_nonneg:
  fixes t d :: int64
  assumes "0 \<le> sint t" and "0 < sint d"
  shows "sint t + sint d < 2 ^ 63 \<Longrightarrow> sint (t + d) = sint t + sint d"
    and "2 ^ 63 \<le> sint t + sint d \<Longrightarrow> sint (t + d) < 0"
proof -
  have eq: "sint (t + d) = signed_take_bit 63 (sint t + sint d)"
    by (simp add: sint_word_ariths)
  have lt: "sint t < 2 ^ 63" "sint d < 2 ^ 63"
    using sint_lt [of t] sint_lt [of d] by simp_all
  show "sint (t + d) = sint t + sint d" if "sint t + sint d < 2 ^ 63"
    unfolding eq using that assms by (intro signed_take_bit_int_eq_self) simp_all
  show "sint (t + d) < 0" if "2 ^ 63 \<le> sint t + sint d"
  proof -
    have "signed_take_bit 63 (sint t + sint d) \<le> sint t + sint d - 2 ^ Suc 63"
      using that by (rule signed_take_bit_int_less_eq)
    moreover from lt have "sint t + sint d - 2 ^ Suc 63 < 0"
      by simp
    ultimately show ?thesis
      unfolding eq by (rule le_less_trans)
  qed
qed

lemma Delete_Some:
  "\<exists>c'. Delete c k = Some c' \<and> defaultExpiration c' = defaultExpiration c"
  by (cases "onEvicted c"; cases "DAList.lookup (items c) k")
     (simp_all add: Delete_def delete_def emit_def call_onEvicted_def)

lemma perform_defaultExpiration:
  "\<exists>c'. perform c a = Some c' \<and> defaultExpiration c' = defaultExpiration c"
proof (cases a)
  case (CallDelete k)
  then show ?thesis using Delete_Some [of c k] by simp
next
  case (CallDeleteExpired now)
  then show ?thesis by (simp add: DeleteExpired_result)
qed (simp_all add: Set_def SetDefault_def Add_def Replace_def Get_def GetWithExpiration_def
       OnEvicted_def Flush_def ItemCount_def Items_def Objects_def set_lc_def get_def
       Let_def emit_def split_beta split: option.splits)

lemma run_defaultExpiration:
  "\<exists>c'. run c as = Some c' \<and> defaultExpiration c' = defaultExpiration c"
proof (induction as arbitrary: c)
  case Nil
  show ?case by simp
next
  case (Cons a as)
  obtain c1 where c1: "perform c a = Some c1" "defaultExpiration c1 = defaultExpiration c"
    using perform_defaultExpiration [of c a] by blast
  with Cons.IH [of c1] show ?case by simp
qed

lemma set_lc_default:
  "defaultExpiration c = - 1 \<Longrightarrow>
   items (set_lc c k x DefaultExpiration ts)
     = DAList.update k \<lparr>Object = x, Expiration = 0\<rparr> (items c)"
  by (simp add: set_lc_def DefaultExpiration_def)

subsection \<open>Adding a key twice\<close>

text \<open>
  C1. A store made by \<open>New\<close>; \<open>Add\<close> of key \<open>k\<close> with value 1 and a time to live of 1000
  at clock reading 100 succeeds and stores the deadline 100, the clock reading alone. A
  second \<open>Add\<close> of \<open>k\<close> with value 2 at clock reading 101, well within the time to live
  of the first, returns no error and stores value 2.
\<close>

theorem Add_within_ttl_overwrites:
  "fst (Add (New 0 0 :: (nat, nat) cache) ''k'' (Some 1) 1000 100 100) = None \<and>
   DAList.lookup (items (snd (Add (New 0 0 :: (nat, nat) cache) ''k'' (Some 1) 1000 100 100))) ''k''
     = Some \<lparr>Object = Some 1, Expiration = 100\<rparr> \<and>
   fst (Add (snd (Add (New 0 0 :: (nat, nat) cache) ''k'' (Some 1) 1000 100 100))
          ''k'' (Some 2) 1000 101 101) = None \<and>
   DAList.lookup
     (items (snd (Add (snd (Add (New 0 0 :: (nat, nat) cache) ''k'' (Some 1) 1000 100 100))
                    ''k'' (Some 2) 1000 101 101))) ''k''
     = Some \<lparr>Object = Some 2, Expiration = 101\<rparr>"
  by (simp add: Add_def get_def set_lc_def New_def newCacheWithJanitor_def newCache_def
        emit_def DefaultExpiration_def Let_def word_sless_alt)

subsection \<open>Writing, then reading\<close>

text \<open>
  C2. Let \<open>Set\<close> write a value with a positive time to live \<open>d\<close> at the clock reading
  \<open>t1\<close>, a time not before the epoch. A \<open>Get\<close> at a clock reading \<open>t2\<close> that is not past
  the deadline \<open>t1 + d\<close> (in particular at \<open>t1\<close> itself) returns the value and \<open>true\<close>; a
  \<open>Get\<close> at a clock reading past the deadline returns \<open>nil\<close> and \<open>false\<close>. The deadline
  is the sum of the integers: where it is beyond the range of \<^verbatim>\<open>int64\<close> no clock
  reading passes it, and the entry is found at every reading.
\<close>

theorem Set_then_Get:
  assumes "0 <s d" and "0 \<le>s t1"
  shows "fst (Get (Set c k x d t1) k t1) = (x, True) \<and>
     (sint t2 \<le> sint t1 + sint d \<longrightarrow> fst (Get (Set c k x d t1) k t2) = (x, True)) \<and>
     (sint t1 + sint d < sint t2 \<longrightarrow> fst (Get (Set c k x d t1) k t2) = (None, False))"
proof -
  from assms have d: "0 < sint d" and t1: "0 \<le> sint t1"
    by (simp_all add: word_sless_alt word_sle_eq)
  from assms(1) have "d \<noteq> 0"
    by (auto simp add: word_sless_alt)
  with assms(1) have stored: "DAList.lookup (items (Set c k x d t1)) k
      = Some \<lparr>Object = x, Expiration = t1 + d\<rparr>"
    by (simp add: Set_items DefaultExpiration_def)
  have get: "fst (Get (Set c k x d t1) k t) =
      (if deadline_passed t \<lparr>Object = x, Expiration = t1 + d\<rparr> then (None, False)
       else (x, True))" for t
    by (simp add: Get_result stored)
  have before: "\<not> deadline_passed t \<lparr>Object = x, Expiration = t1 + d\<rparr>"
    if "sint t \<le> sint t1 + sint d" for t
  proof (cases "sint t1 + sint d < 2 ^ 63")
    case True
    then have "sint (t1 + d) = sint t1 + sint d"
      by (rule sint_add_nonneg(1) [OF t1 d])
    with that show ?thesis
      by (simp add: deadline_passed_def word_sless_alt)
  next
    case False
    then have "sint (t1 + d) < 0"
      by (intro sint_add_nonneg(2) [OF t1 d]) simp
    then show ?thesis
      by (simp add: deadline_passed_def word_sless_alt)
  qed
  have after: "deadline_passed t2 \<lparr>Object = x, Expiration = t1 + d\<rparr>"
    if "sint t1 + sint d < sint t2"
  proof -
    from that have "sint t1 + sint d < 2 ^ 63"
      using sint_lt [of t2] by simp
    then have "sint (t1 + d) = sint t1 + sint d"
      by (rule sint_add_nonneg(1) [OF t1 d])
    with that d t1 show ?thesis
      by (simp add: deadline_passed_def word_sless_alt)
  qed
  from d have "sint t1 \<le> sint t1 + sint d"
    by simp
  then have "fst (Get (Set c k x d t1) k t1) = (x, True)"
    by (simp add: get before)
  with before [of t2] after show ?thesis
    by (simp add: get)
qed

theorem Set_then_Get_witness:
  "(0 :: int64) <s 10 \<and> (0 :: int64) \<le>s 100 \<and>
   fst (Get (Set example_cache ''a'' (Some 3) 10 100) ''a'' 100) = (Some 3, True) \<and>
   sint (110 :: int64) \<le> sint (100 :: int64) + sint (10 :: int64) \<and>
   fst (Get (Set example_cache ''a'' (Some 3) 10 100) ''a'' 110) = (Some 3, True) \<and>
   sint (100 :: int64) + sint (10 :: int64) < sint (111 :: int64) \<and>
   fst (Get (Set example_cache ''a'' (Some 3) 10 100) ''a'' 111) = (None, False)"
proof -
  have h: "(0 :: int64) <s 10" "(0 :: int64) \<le>s 100"
    by (simp_all add: word_sless_alt word_sle_eq)
  have a: "sint (110 :: int64) \<le> sint (100 :: int64) + sint (10 :: int64)"
    and b: "sint (100 :: int64) + sint (10 :: int64) < sint (111 :: int64)"
    by simp_all
  from Set_then_Get [OF h, of example_cache "''a''" "Some 3" 110]
       Set_then_Get [OF h, of example_cache "''a''" "Some 3" 111] h a b
  show ?thesis
    by blast
qed

subsection \<open>The callback and the lock\<close>

text \<open>
  C3. On the example store, whose trace is unguarded, \<open>Delete\<close> of the present key \<open>k\<close>
  adds the lock, then the callback invocation, then the unlock: the callback runs while
  the lock is held, and the trace is no longer unguarded. \<open>DeleteExpired\<close> on the same
  store, which removes the same entry, unlocks before it invokes the callback and leaves
  the trace unguarded.
\<close>

theorem Delete_invokes_callback_under_lock:
  "unguarded 0 (trace example_cache) \<and>
   map_option trace (Delete example_cache ''k'')
     = Some (trace example_cache @ [Lock, Evicted 1 ''k'' (Some 7), Unlock]) \<and>
   map_option (\<lambda>c. unguarded 0 (trace c)) (Delete example_cache ''k'') = Some False \<and>
   map_option trace (DeleteExpired example_cache 20)
     = Some (trace example_cache @ [Lock, Unlock, Evicted 1 ''k'' (Some 7)]) \<and>
   map_option (\<lambda>c. unguarded 0 (trace c)) (DeleteExpired example_cache 20) = Some True"
  by (simp add: DeleteExpired_result Delete_def delete_def call_onEvicted_def emit_def
        example_cache_eq DAList.update.rep_eq DAList.empty.rep_eq deadline_passed_def
        word_sless_alt)

subsection \<open>Sweeping the expired entries\<close>

text \<open>
  C4. With a callback registered, \<open>DeleteExpired\<close> returns, and the entries it leaves
  are those of the store whose deadline has not passed, in their order. The callback
  invocations it adds to the trace are one for each entry whose deadline has passed,
  with the key and the value of that entry; the keys of these entries are distinct, so
  no entry is notified twice. Afterwards \<open>Get\<close> on the key of a removed entry finds
  nothing at any time, an entry with expiration 0 is still there, and \<open>ItemCount\<close> has
  gone down by the number of removed entries.
\<close>

theorem DeleteExpired_removes_and_notifies:
  assumes "onEvicted c = Some f"
  shows "\<exists>c'. DeleteExpired c now = Some c' \<and>
     DAList.impl_of (items c')
       = filter (\<lambda>(k, v). \<not> deadline_passed now v) (DAList.impl_of (items c)) \<and>
     evictions (trace c')
       = evictions (trace c) @
         map (\<lambda>(k, v). (f, k, Object v))
           (filter (\<lambda>(k, v). deadline_passed now v) (DAList.impl_of (items c))) \<and>
     distinct (map fst (filter (\<lambda>(k, v). deadline_passed now v) (DAList.impl_of (items c)))) \<and>
     (\<forall>k v t. DAList.lookup (items c) k = Some v \<and> deadline_passed now v \<longrightarrow>
        fst (Get c' k t) = (None, False)) \<and>
     (\<forall>k v. DAList.lookup (items c) k = Some v \<and> Expiration v = 0 \<longrightarrow>
        DAList.lookup (items c') k = Some v) \<and>
     fst (ItemCount c')
       + length (filter (\<lambda>(k, v). deadline_passed now v) (DAList.impl_of (items c)))
       = fst (ItemCount c)"
proof -
  let ?xs = "DAList.impl_of (items c)"
  let ?dead = "filter (\<lambda>(k, v). deadline_passed now v) ?xs"
  let ?kept = "DAList.filter (\<lambda>(k, v). \<not> deadline_passed now v) (items c)"
  let ?c' = "c\<lparr>items := ?kept,
      trace := trace c @ [Lock, Unlock] @ map (\<lambda>(k, v). Evicted f k (Object v)) ?dead\<rparr>"
  have res: "DeleteExpired c now = Some ?c'"
    using assms by (simp add: DeleteExpired_result)
  have kept: "DAList.impl_of (items ?c') = filter (\<lambda>(k, v). \<not> deadline_passed now v) ?xs"
    by (simp add: DAList.filter.rep_eq)
  have evs: "evictions (trace ?c')
      = evictions (trace c) @ map (\<lambda>(k, v). (f, k, Object v)) ?dead"
    by (simp add: evictions_append evictions_map_Evicted)
  have dist: "distinct (map fst ?dead)"
    by (rule distinct_map_fst_filter) simp
  have gone: "fst (Get ?c' k t) = (None, False)"
    if "DAList.lookup (items c) k = Some v" "deadline_passed now v" for k v t
    using that by (simp add: Get_result DAList_lookup_filter)
  have stay: "DAList.lookup (items ?c') k = Some v"
    if "DAList.lookup (items c) k = Some v" "Expiration v = 0" for k v
    using that by (simp add: DAList_lookup_filter deadline_passed_def word_sless_alt)
  have "length (filter (\<lambda>(k, v). \<not> deadline_passed now v) ?xs) + length ?dead = length ?xs"
    by (rule length_filter_kept_dead)
  then have count: "fst (ItemCount ?c') + length ?dead = fst (ItemCount c)"
    by (simp add: ItemCount_def Let_def emit_def DAList.filter.rep_eq)
  from res kept evs dist gone stay count show ?thesis
    by blast
qed

theorem DeleteExpired_removes_and_notifies_witness:
  "onEvicted example_cache = Some 1 \<and>
   (\<exists>c'. DeleteExpired example_cache 20 = Some c' \<and>
      DAList.impl_of (items c') = [(''n'', \<lparr>Object = Some 8, Expiration = 0\<rparr>)] \<and>
      evictions (trace c') = [(1, ''k'', Some 7)] \<and>
      fst (Get c' ''k'' 25) = (None, False) \<and>
      fst (ItemCount c') = 1)"
proof -
  have cb: "onEvicted example_cache = Some 1"
    by (simp add: example_cache_eq)
  have k: "DAList.lookup (items example_cache) ''k'' = Some \<lparr>Object = Some 7, Expiration = 15\<rparr>"
    by (simp add: example_cache_eq)
  have dead: "deadline_passed 20 \<lparr>Object = Some (7 :: nat), Expiration = 15\<rparr>"
    and live: "\<not> deadline_passed 20 \<lparr>Object = Some (8 :: nat), Expiration = 0\<rparr>"
    by (simp_all add: deadline_passed_def word_sless_alt)
  have tr: "evictions (trace example_cache) = []"
    by (simp add: example_cache_eq)
  have n: "fst (ItemCount example_cache) = 2"
    by (simp add: ItemCount_def Let_def emit_def example_cache_items)
  from DeleteExpired_removes_and_notifies [OF cb, of 20]
  obtain c' where c': "DeleteExpired example_cache 20 = Some c'"
    "DAList.impl_of (items c')
       = filter (\<lambda>(k, v). \<not> deadline_passed 20 v) (DAList.impl_of (items example_cache))"
    "evictions (trace c')
       = evictions (trace example_cache) @
         map (\<lambda>(k, v). (1, k, Object v))
           (filter (\<lambda>(k, v). deadline_passed 20 v) (DAList.impl_of (items example_cache)))"
    "\<forall>k v t. DAList.lookup (items example_cache) k = Some v \<and> deadline_passed 20 v \<longrightarrow>
        fst (Get c' k t) = (None, False)"
    "fst (ItemCount c')
       + length (filter (\<lambda>(k, v). deadline_passed 20 v) (DAList.impl_of (items example_cache)))
       = fst (ItemCount example_cache)"
    by blast
  from c'(4) k dead have "fst (Get c' ''k'' 25) = (None, False)"
    by blast
  with c'(1,2,3,5) cb show ?thesis
    by (simp add: example_cache_items dead live tr n)
qed

subsection \<open>Replacing\<close>

text \<open>
  C5. When the key is absent, or holds an entry whose deadline has passed at the clock
  reading of \<open>Replace\<close>, the call fails with \<open>KeyNotFound\<close> and changes nothing of the
  cache but the trace: no entry is created or altered. A call that succeeds found an
  entry at the key that was live at that reading.
\<close>

theorem Replace_needs_live_entry:
  "((DAList.lookup (items c) k = None \<or>
     (\<exists>it. DAList.lookup (items c) k = Some it \<and>
           0 <s Expiration it \<and> Expiration it <s tg)) \<longrightarrow>
      Replace c k x d tg ts
        = (Some (KeyNotFound k), c\<lparr>trace := trace c @ [Lock, Unlock]\<rparr>)) \<and>
   (fst (Replace c k x d tg ts) = None \<longrightarrow>
      (\<exists>it. DAList.lookup (items c) k = Some it \<and>
            \<not> (0 <s Expiration it \<and> Expiration it <s tg)))"
  by (cases "DAList.lookup (items c) k")
     (auto simp add: Replace_def get_def emit_def Let_def)

theorem Replace_needs_live_entry_witness:
  "DAList.lookup (items (New 0 0 :: (nat, nat) cache)) ''missing'' = None \<and>
   Replace (New 0 0 :: (nat, nat) cache) ''missing'' (Some 1) 50 10 10
     = (Some (KeyNotFound ''missing''), (New 0 0)\<lparr>trace := [Lock, Unlock]\<rparr>) \<and>
   DAList.lookup (items (Set (New 0 0 :: (nat, nat) cache) ''a'' (Some 7) 50 10)) ''a''
     = Some \<lparr>Object = Some 7, Expiration = 60\<rparr> \<and>
   (0 :: int64) <s 60 \<and> (60 :: int64) <s 61 \<and>
   fst (Replace (Set (New 0 0 :: (nat, nat) cache) ''a'' (Some 7) 50 10) ''a'' (Some 8) 50 61 61)
     = Some (KeyNotFound ''a'') \<and>
   DAList.lookup (items (snd (Replace (Set (New 0 0 :: (nat, nat) cache) ''a'' (Some 7) 50 10) ''a'' (Some 8) 50 61 61))) ''a''
     = Some \<lparr>Object = Some 7, Expiration = 60\<rparr> \<and>
   fst (Replace (Set (New 0 0 :: (nat, nat) cache) ''a'' (Some 7) 50 10) ''a'' (Some 8) 50 60 60) = None \<and>
   \<not> (60 :: int64) <s 60"
  using Replace_needs_live_entry [of "New 0 0 :: (nat, nat) cache" "''missing''" 10 "Some 1" 50 10]
        Replace_needs_live_entry [of "Set (New 0 0 :: (nat, nat) cache) ''a'' (Some 7) 50 10" "''a''" 61 "Some 8" 50 61]
        Replace_needs_live_entry [of "Set (New 0 0 :: (nat, nat) cache) ''a'' (Some 7) 50 10" "''a''" 60 "Some 8" 50 60]
  by (simp add: New_def newCacheWithJanitor_def newCache_def Set_def emit_def
        DefaultExpiration_def word_sless_alt Replace_def get_def set_lc_def)

subsection \<open>Flushing\<close>

text \<open>
  C6. \<open>Flush\<close> leaves no entry, so that \<open>ItemCount\<close> is 0 right after it, and it adds
  to the trace only its lock and unlock: no callback invocation, whatever the callback
  field holds.
\<close>

theorem Flush_empties_and_never_evicts:
  "fst (ItemCount (Flush c)) = 0 \<and>
   DAList.impl_of (items (Flush c)) = [] \<and>
   trace (Flush c) = trace c @ [Lock, Unlock] \<and>
   evictions (trace (Flush c)) = evictions (trace c)"
  by (simp add: ItemCount_def Flush_def emit_def evictions_append DAList.empty.rep_eq)

subsection \<open>Deleting a key\<close>

text \<open>
  C7. \<open>Delete\<close> never panics. On an absent key it changes nothing but the trace, which
  gets the lock and the unlock and no callback invocation. On a present key it removes
  the entry; with a callback registered it invokes the callback once, with the key and
  the value of the removed entry, before the operation ends; with none it invokes
  nothing.
\<close>

theorem Delete_total_and_effect:
  "Delete c k \<noteq> None \<and>
   (DAList.lookup (items c) k = None \<longrightarrow>
      Delete c k = Some (c\<lparr>trace := trace c @ [Lock, Unlock]\<rparr>)) \<and>
   (\<forall>it f. DAList.lookup (items c) k = Some it \<and> onEvicted c = Some f \<longrightarrow>
      Delete c k = Some (c\<lparr>items := DAList.delete k (items c),
                           trace := trace c @ [Lock, Evicted f k (Object it), Unlock]\<rparr>)) \<and>
   (\<forall>it. DAList.lookup (items c) k = Some it \<and> onEvicted c = None \<longrightarrow>
      Delete c k = Some (c\<lparr>items := DAList.delete k (items c),
                           trace := trace c @ [Lock, Unlock]\<rparr>))"
  by (cases "onEvicted c"; cases "DAList.lookup (items c) k")
     (simp_all add: Delete_def delete_def emit_def call_onEvicted_def DAList_delete_absent)

theorem Delete_total_and_effect_witness:
  "DAList.lookup (items (New 0 0 :: (nat, nat) cache)) ''a'' = None \<and>
   map_option trace (Delete (New 0 0 :: (nat, nat) cache) ''a'') = Some [Lock, Unlock] \<and>
   DAList.lookup (items (OnEvicted (Set (New 0 0 :: (nat, nat) cache) ''a'' (Some 7) 0 5) (Some 1))) ''a''
     = Some \<lparr>Object = Some 7, Expiration = 0\<rparr> \<and>
   onEvicted (OnEvicted (Set (New 0 0 :: (nat, nat) cache) ''a'' (Some 7) 0 5) (Some 1)) = Some 1 \<and>
   map_option (\<lambda>c. (evictions (trace c), DAList.lookup (items c) ''a''))
     (Delete (OnEvicted (Set (New 0 0 :: (nat, nat) cache) ''a'' (Some 7) 0 5) (Some 1)) ''a'')
     = Some ([(1, ''a'', Some 7)], None) \<and>
   onEvicted (Set (New 0 0 :: (nat, nat) cache) ''a'' (Some 7) 0 5) = None \<and>
   map_option (\<lambda>c. (evictions (trace c), DAList.lookup (items c) ''a''))
     (Delete (Set (New 0 0 :: (nat, nat) cache) ''a'' (Some 7) 0 5) ''a'')
     = Some ([], None)"
  using Delete_total_and_effect [of "New 0 0 :: (nat, nat) cache" "''a''"]
        Delete_total_and_effect [of "OnEvicted (Set (New 0 0 :: (nat, nat) cache) ''a'' (Some 7) 0 5) (Some 1)" "''a''"]
        Delete_total_and_effect [of "Set (New 0 0 :: (nat, nat) cache) ''a'' (Some 7) 0 5" "''a''"]
  by (simp add: New_def newCacheWithJanitor_def newCache_def Set_def OnEvicted_def emit_def
        DefaultExpiration_def word_sless_alt evictions_append)

subsection \<open>Reading with the expiration\<close>

text \<open>
  C8. \<open>GetWithExpiration\<close> finds a key exactly when \<open>Get\<close> does, with the same value.
  For an entry with a positive deadline that the clock has not passed it returns the
  value and the time of the deadline; for an entry with no positive deadline the value
  and the zero time; for an absent key and for an entry whose deadline has passed,
  \<open>nil\<close>, the zero time and \<open>false\<close>.
\<close>

theorem GetWithExpiration_cases:
  "fst (fst (GetWithExpiration c k now)) = fst (fst (Get c k now)) \<and>
   snd (snd (fst (GetWithExpiration c k now))) = snd (fst (Get c k now)) \<and>
   (\<forall>it. DAList.lookup (items c) k = Some it \<and> 0 <s Expiration it \<and>
         \<not> Expiration it <s now \<longrightarrow>
      fst (GetWithExpiration c k now) = (Object it, Unix 0 (Expiration it), True)) \<and>
   (\<forall>it. DAList.lookup (items c) k = Some it \<and> \<not> 0 <s Expiration it \<longrightarrow>
      fst (GetWithExpiration c k now) = (Object it, ZeroTime, True)) \<and>
   (DAList.lookup (items c) k = None \<or>
    (\<exists>it. DAList.lookup (items c) k = Some it \<and>
          0 <s Expiration it \<and> Expiration it <s now) \<longrightarrow>
      fst (GetWithExpiration c k now) = (None, ZeroTime, False))"
  by (cases "DAList.lookup (items c) k")
     (auto simp add: GetWithExpiration_def Get_def emit_def Let_def)

theorem GetWithExpiration_cases_witness:
  "DAList.lookup (items example_cache) ''k'' = Some \<lparr>Object = Some 7, Expiration = 15\<rparr> \<and>
   (0 :: int64) <s 15 \<and> \<not> (15 :: int64) <s 15 \<and> (15 :: int64) <s 16 \<and>
   fst (GetWithExpiration example_cache ''k'' 15) = (Some 7, Unix 0 15, True) \<and>
   fst (GetWithExpiration example_cache ''k'' 16) = (None, ZeroTime, False) \<and>
   DAList.lookup (items example_cache) ''n'' = Some \<lparr>Object = Some 8, Expiration = 0\<rparr> \<and>
   \<not> (0 :: int64) <s 0 \<and>
   fst (GetWithExpiration example_cache ''n'' 16) = (Some 8, ZeroTime, True) \<and>
   DAList.lookup (items example_cache) ''a'' = None \<and>
   fst (GetWithExpiration example_cache ''a'' 16) = (None, ZeroTime, False)"
  using GetWithExpiration_cases [of example_cache "''k''" 15]
        GetWithExpiration_cases [of example_cache "''k''" 16]
        GetWithExpiration_cases [of example_cache "''n''" 16]
        GetWithExpiration_cases [of example_cache "''a''" 16]
  by (simp add: example_cache_eq word_sless_alt)

subsection \<open>The default expiration 0\<close>

text \<open>
  C9. A store built with the default expiration 0, by \<open>New\<close> or by \<open>NewFrom\<close>, has the
  default expiration \<open>NoExpiration\<close>, and keeps it through every sequence of calls, none
  of which panics. In the store so reached every write with the duration
  \<open>DefaultExpiration\<close> stores expiration 0: \<open>Set\<close> and \<open>SetDefault\<close> always, after which
  \<open>Get\<close> finds the value at every clock reading; \<open>Add\<close> and \<open>Replace\<close> whenever they do
  not fail, and when they fail they leave the entries as they were.
\<close>

theorem zero_default_is_never_expire:
  "New DefaultExpiration ci = (NewFrom DefaultExpiration ci DAList.empty :: ('v, 'f) cache) \<and>
   defaultExpiration (NewFrom DefaultExpiration ci m :: ('v, 'f) cache) = NoExpiration \<and>
   (\<exists>c. run (NewFrom DefaultExpiration ci m :: ('v, 'f) cache) calls = Some c \<and>
      defaultExpiration c = NoExpiration \<and>
      (\<forall>k x now.
         DAList.lookup (items (Set c k x DefaultExpiration now)) k
           = Some \<lparr>Object = x, Expiration = 0\<rparr> \<and>
         DAList.lookup (items (SetDefault c k x now)) k
           = Some \<lparr>Object = x, Expiration = 0\<rparr> \<and>
         (\<forall>t. fst (Get (SetDefault c k x now) k t) = (x, True))) \<and>
      (\<forall>k x tg ts.
         fst (Add c k x DefaultExpiration tg ts) = None \<and>
         DAList.lookup (items (snd (Add c k x DefaultExpiration tg ts))) k
           = Some \<lparr>Object = x, Expiration = 0\<rparr>
         \<or> fst (Add c k x DefaultExpiration tg ts) = Some (KeyExists k) \<and>
           items (snd (Add c k x DefaultExpiration tg ts)) = items c) \<and>
      (\<forall>k x tg ts.
         fst (Replace c k x DefaultExpiration tg ts) = None \<and>
         DAList.lookup (items (snd (Replace c k x DefaultExpiration tg ts))) k
           = Some \<lparr>Object = x, Expiration = 0\<rparr>
         \<or> fst (Replace c k x DefaultExpiration tg ts) = Some (KeyNotFound k) \<and>
           items (snd (Replace c k x DefaultExpiration tg ts)) = items c))"
proof -
  let ?c0 = "NewFrom DefaultExpiration ci m :: ('v, 'f) cache"
  have new: "New DefaultExpiration ci = (NewFrom DefaultExpiration ci DAList.empty :: ('v, 'f) cache)"
    by (simp add: New_def NewFrom_def)
  have de0: "defaultExpiration ?c0 = NoExpiration"
    by (simp add: NewFrom_def newCacheWithJanitor_def newCache_def runJanitor_def
          DefaultExpiration_def NoExpiration_def Let_def)
  obtain c where c: "run ?c0 calls = Some c" and "defaultExpiration c = defaultExpiration ?c0"
    using run_defaultExpiration [of ?c0 calls] by blast
  with de0 have de: "defaultExpiration c = - 1"
    by (simp add: NoExpiration_def)
  have set: "DAList.lookup (items (Set c k x DefaultExpiration now)) k
      = Some \<lparr>Object = x, Expiration = 0\<rparr>" for k x now
    by (simp add: Set_items de DefaultExpiration_def)
  then have setd: "DAList.lookup (items (SetDefault c k x now)) k
      = Some \<lparr>Object = x, Expiration = 0\<rparr>" for k x now
    by (simp add: SetDefault_def)
  have getd: "fst (Get (SetDefault c k x now) k t) = (x, True)" for k x now t
    by (simp add: Get_result setd deadline_passed_def word_sless_alt)
  have add: "fst (Add c k x DefaultExpiration tg ts) = None \<and>
         DAList.lookup (items (snd (Add c k x DefaultExpiration tg ts))) k
           = Some \<lparr>Object = x, Expiration = 0\<rparr>
         \<or> fst (Add c k x DefaultExpiration tg ts) = Some (KeyExists k) \<and>
           items (snd (Add c k x DefaultExpiration tg ts)) = items c" for k x tg ts
    using set_lc_default [of "emit Lock c" k x ts] de
    by (simp add: Add_def Let_def split_beta emit_def)
  have rep: "fst (Replace c k x DefaultExpiration tg ts) = None \<and>
         DAList.lookup (items (snd (Replace c k x DefaultExpiration tg ts))) k
           = Some \<lparr>Object = x, Expiration = 0\<rparr>
         \<or> fst (Replace c k x DefaultExpiration tg ts) = Some (KeyNotFound k) \<and>
           items (snd (Replace c k x DefaultExpiration tg ts)) = items c" for k x tg ts
    using set_lc_default [of "emit Lock c" k x ts] de
    by (simp add: Replace_def Let_def split_beta emit_def)
  from de have "defaultExpiration c = NoExpiration"
    by (simp add: NoExpiration_def)
  with new de0 c set setd getd add rep show ?thesis
    by blast
qed

subsection \<open>Negative durations\<close>

text \<open>
  C10. \<open>Set\<close> with a negative duration, whichever it is, stores the value with
  expiration 0. The entry is then found by \<open>Get\<close> and by \<open>GetWithExpiration\<close>, which
  reports the zero time, at every clock reading; \<open>Items\<close> lists it at every clock
  reading; \<open>DeleteExpired\<close> at any clock reading leaves it in the store.
\<close>

theorem Set_negative_duration_never_expires:
  assumes "d <s 0"
  shows "DAList.lookup (items (Set c k x d now)) k = Some \<lparr>Object = x, Expiration = 0\<rparr> \<and>
     (\<forall>t. fst (Get (Set c k x d now) k t) = (x, True)) \<and>
     (\<forall>t. fst (GetWithExpiration (Set c k x d now) k t) = (x, ZeroTime, True)) \<and>
     (\<forall>t. DAList.lookup (fst (Items (Set c k x d now) t)) k
            = Some \<lparr>Object = x, Expiration = 0\<rparr>) \<and>
     (\<forall>t. \<exists>c'. DeleteExpired (Set c k x d now) t = Some c' \<and>
            DAList.lookup (items c') k = Some \<lparr>Object = x, Expiration = 0\<rparr>)"
proof -
  let ?c = "Set c k x d now"
  let ?it = "\<lparr>Object = x, Expiration = 0\<rparr>"
  have stored: "DAList.lookup (items ?c) k = Some ?it"
    using negative_duration [OF assms]
    by (simp add: Set_items DefaultExpiration_def)
  have live: "\<not> deadline_passed t ?it" for t
    by (simp add: deadline_passed_def word_sless_alt)
  have "fst (Get ?c k t) = (x, True)" for t
    by (simp add: Get_result stored live)
  moreover have "fst (GetWithExpiration ?c k t) = (x, ZeroTime, True)" for t
    by (simp add: GetWithExpiration_result stored live word_sless_alt)
  moreover have "DAList.lookup (fst (Items ?c t)) k = Some ?it" for t
    by (simp add: Items_lookup stored live)
  moreover have "\<exists>c'. DeleteExpired ?c t = Some c' \<and> DAList.lookup (items c') k = Some ?it"
    for t
    using DeleteExpired_lookup [of ?c t k] by (auto simp add: stored live)
  ultimately show ?thesis
    using stored by blast
qed

theorem Set_negative_duration_never_expires_witness:
  "(- 5 :: int64) <s 0 \<and>
   DAList.lookup (items (Set example_cache ''k'' (Some 9) (- 5) 100)) ''k''
     = Some \<lparr>Object = Some 9, Expiration = 0\<rparr> \<and>
   fst (Get (Set example_cache ''k'' (Some 9) (- 5) 100) ''k'' 9000000000000000000)
     = (Some 9, True)"
proof -
  have neg: "(- 5 :: int64) <s 0"
    by (simp add: word_sless_alt)
  from Set_negative_duration_never_expires [OF neg, of example_cache "''k''" "Some 9" 100]
  show ?thesis
    using neg by blast
qed

end
